theory Spec2Isabelle
  imports Main "HOL-Library.Product_Lexorder"
begin

section \<open>Data model of \<^verbatim>\<open>scripts/cleanup-old-packages.py\<close>\<close>

text \<open>
  A file is the metadata dictionary the registry returns for one artifact. The keys the
  script reads are the fields of the record. \<open>attrs_build_number\<close> is
  \<^verbatim>\<open>file["attrs"]["build_number"]\<close> (conda packages) and \<open>attrs_build_no\<close> is the integer
  that \<^verbatim>\<open>int\<close> reads from the string \<^verbatim>\<open>file["attrs"]["build_no"]\<close> (wheels); \<open>None\<close> stands
  for a missing key (or a missing \<^verbatim>\<open>attrs\<close> dictionary), for which the script substitutes 0.
  Metadata whose \<^verbatim>\<open>build_no\<close> is not a numeral, or that lacks one of the other keys, is
  not a value of this type.
  The key \<^verbatim>\<open>cleanup_priority\<close> is absent (\<open>None\<close>) until the classifier writes it.
  The upload time is only ever compared, so its type is any linear order.
\<close>

record 't file_rec =
  version :: string
  attrs_build_number :: "int option"
  attrs_build_no :: "int option"
  fsize :: int
  upload_time :: 't
  labels :: "string list"
  full_name :: string
  cleanup_priority :: "int option"

text \<open>The answer of \<^verbatim>\<open>aserver_api.package\<close>: the version sequence and the files.\<close>

record 't package =
  pkg_versions :: "string list"
  pkg_files :: "'t file_rec list"

text \<open>The arguments of \<^verbatim>\<open>cleanup_packages\<close> (path and token only select the package).\<close>

record config =
  label :: "string option"
  keep_count :: "int option"
  max_size :: "int option"
  max_priority :: "int option"
  dry_run :: bool
  force :: bool
  verbose :: bool

datatype error = KeyError

section \<open>Development versions\<close>

text \<open>
  \<^verbatim>\<open>re.search(r"^\d+\.\d+\.\d+\.?(dev|rc)\d+", version)\<close>. The anchor pins the match to the
  start of the string and nothing anchors its end. Each piece of the pattern is followed
  by a character that the piece itself cannot consume, so the match is decided by reading
  the string left to right: \<open>eat_digits\<close> is \<^verbatim>\<open>\d+\<close>, \<open>eat_char\<close> a literal character,
  \<open>eat_opt_dot\<close> is \<^verbatim>\<open>\.?\<close> and \<open>eat_tag\<close> is \<^verbatim>\<open>(dev|rc)\<close>; each returns the rest of the
  string, or \<open>None\<close> when the piece does not match. Strings are lists of 8-bit characters,
  among which \<^verbatim>\<open>\d\<close> matches the ten digits \<open>0\<close> to \<open>9\<close> only.
\<close>

definition is_digit :: "char \<Rightarrow> bool" where
  "is_digit c = (c \<in> set ''0123456789'')"

definition eat_digits :: "string \<Rightarrow> string option" where
  "eat_digits s = (case s of [] \<Rightarrow> None
     | c # cs \<Rightarrow> if is_digit c then Some (dropWhile is_digit cs) else None)"

definition eat_char :: "char \<Rightarrow> string \<Rightarrow> string option" where
  "eat_char x s = (case s of [] \<Rightarrow> None | c # cs \<Rightarrow> if c = x then Some cs else None)"

definition eat_opt_dot :: "string \<Rightarrow> string option" where
  "eat_opt_dot s = (case s of [] \<Rightarrow> Some [] | c # cs \<Rightarrow> if c = CHR ''.'' then Some cs else Some s)"

definition eat_tag :: "string \<Rightarrow> string option" where
  "eat_tag s = (if take 3 s = ''dev'' then Some (drop 3 s)
                else if take 2 s = ''rc'' then Some (drop 2 s) else None)"

definition is_dev_version :: "string \<Rightarrow> bool" where
  "is_dev_version v =
     (Option.bind (eat_digits v) (\<lambda>s1.
      Option.bind (eat_char CHR ''.'' s1) (\<lambda>s2.
      Option.bind (eat_digits s2) (\<lambda>s3.
      Option.bind (eat_char CHR ''.'' s3) (\<lambda>s4.
      Option.bind (eat_digits s4) (\<lambda>s5.
      Option.bind (eat_opt_dot s5) (\<lambda>s6.
      Option.bind (eat_tag s6) eat_digits)))))) \<noteq> None)"



section \<open>Build numbers\<close>

definition build_number :: "('t, 'm) file_rec_scheme \<Rightarrow> int" where
  "build_number f = max (case attrs_build_number f of None \<Rightarrow> 0 | Some n \<Rightarrow> n)
                        (case attrs_build_no f of None \<Rightarrow> 0 | Some n \<Rightarrow> n)"

text \<open>\<^verbatim>\<open>max(map(build_number, files), default=0)\<close>\<close>

definition max_build :: "('t, 'm) file_rec_scheme list \<Rightarrow> int" where
  "max_build fs = (case map build_number fs of [] \<Rightarrow> 0 | b # bs \<Rightarrow> fold max bs b)"

section \<open>Priority classifier\<close>

text \<open>
  The script works on the file dictionaries by reference: \<^verbatim>\<open>files_by_version\<close> holds, for
  each version string, the very objects of \<^verbatim>\<open>files\<close>. The list \<^verbatim>\<open>files\<close> is the store here,
  and a reference to a file is its position in that list, so \<open>files_by_version\<close> yields
  positions, in the order of the list; a version with no files yields the empty list,
  as the \<^verbatim>\<open>defaultdict\<close> does.
\<close>

definition files_by_version :: "'t file_rec list \<Rightarrow> string \<Rightarrow> nat list" where
  "files_by_version fs v = filter (\<lambda>i. version (fs ! i) = v) [0..<length fs]"

text \<open>The scan for the last development version of the version sequence.\<close>

definition last_dev_of :: "string list \<Rightarrow> string option" where
  "last_dev_of vs = fold (\<lambda>v last_dev. if is_dev_version v then Some v else last_dev) vs None"

text \<open>The body of the inner loop: the priority of one file of the version being visited.\<close>

definition file_priority :: "bool \<Rightarrow> int \<Rightarrow> string option \<Rightarrow> 't file_rec \<Rightarrow> int" where
  "file_priority is_dev mbd last_dev f =
     (if build_number f = mbd then (if is_dev \<and> Some (version f) \<noteq> last_dev then 2 else 4)
      else if is_dev \<and> Some (version f) = last_dev then 3
      else if is_dev then 0
      else 1)"

text \<open>
  One round of the outer loop, for the version \<open>v\<close>: \<open>groups\<close> is \<^verbatim>\<open>files_by_version\<close>, built
  once before the loop, and \<open>st\<close> is the store of file objects. Every file of the group gets
  its priority written.
\<close>

definition classify_version ::
  "string option \<Rightarrow> (string \<Rightarrow> nat list) \<Rightarrow> string \<Rightarrow> 't file_rec list \<Rightarrow> 't file_rec list" where
  "classify_version last_dev groups v st =
     (let is_dev = is_dev_version v;
          mbd = max_build (map (\<lambda>i. st ! i) (groups v))
      in fold (\<lambda>i st. st[i := (st ! i)\<lparr>cleanup_priority :=
                                   Some (file_priority is_dev mbd last_dev (st ! i))\<rparr>])
              (groups v) st)"

definition classify :: "string list \<Rightarrow> 't file_rec list \<Rightarrow> 't file_rec list" where
  "classify vs fs = fold (classify_version (last_dev_of vs) (files_by_version fs)) vs fs"

text \<open>
  The loop that reports the priorities. \<^verbatim>\<open>print_verbose\<close> prints only when \<^verbatim>\<open>verbose\<close> is set,
  but its arguments, \<^verbatim>\<open>file["cleanup_priority"]\<close> among them, are evaluated in either case.
\<close>

definition print_priorities :: "'t file_rec list \<Rightarrow> error + unit" where
  "print_priorities fs =
     (if list_all (\<lambda>f. cleanup_priority f \<noteq> None) fs then Inr () else Inl KeyError)"

text \<open>
  \<^verbatim>\<open>files.sort(key=itemgetter("cleanup_priority", "upload_time"))\<close>: the keys of all files are
  computed first, then the list is sorted by them; the sort is stable and pairs are
  compared lexicographically.
\<close>

definition sort_files :: "('t::linorder) file_rec list \<Rightarrow> error + 't file_rec list" where
  "sort_files fs =
     (if list_all (\<lambda>f. cleanup_priority f \<noteq> None) fs
      then Inr (sort_key (\<lambda>f. (the (cleanup_priority f), upload_time f)) fs)
      else Inl KeyError)"

section \<open>Eviction loop\<close>

text \<open>
  The local variables of the loop, and what it does to the outside: \<open>removed\<close> lists the
  files handed to \<^verbatim>\<open>remove_dist\<close>, by full name, \<open>prompts\<close> counts the calls of \<^verbatim>\<open>bool_input\<close>,
  and \<open>printed\<close> holds the \<^verbatim>\<open>Removing\<close> lines (name and \<^verbatim>\<open>need_clean\<close>). The final
  \<open>cleanup_size\<close> is the reported \<^verbatim>\<open>Cleaned size\<close>.
\<close>

record 't state =
  files :: "'t file_rec list"
  total_size :: int
  cleanup_size :: int
  last_version :: "string option"
  last_build :: "int option"
  removed :: "string list"
  prompts :: nat
  printed :: "(string \<times> bool) list"

datatype 'a outcome = Break 'a | Continue 'a

text \<open>
  \<^verbatim>\<open>need_clean\<close>, with the short-circuit evaluation of the source: the priority of the
  front file is looked up only when the size test did not already decide.
\<close>

definition need_clean :: "config \<Rightarrow> 't state \<Rightarrow> 't file_rec \<Rightarrow> error + bool" where
  "need_clean cfg st file =
     (if (case max_size cfg of None \<Rightarrow> False | Some m \<Rightarrow> total_size st > m) then Inr True
      else case max_priority cfg of
             None \<Rightarrow> Inr (case keep_count cfg of None \<Rightarrow> False
                                 | Some k \<Rightarrow> int (length (files st)) > k)
           | Some mp \<Rightarrow>
               (case cleanup_priority file of
                  None \<Rightarrow> Inl KeyError
                | Some p \<Rightarrow> Inr (p \<le> mp \<or> (case keep_count cfg of None \<Rightarrow> False
                                             | Some k \<Rightarrow> int (length (files st)) > k))))"

text \<open>
  The removal step. The user is asked only when neither \<^verbatim>\<open>dry_run\<close> nor \<^verbatim>\<open>force\<close> is set;
  \<open>answers n\<close> is the reply to the \<open>n\<close>-th question of the run.
\<close>

definition remove_file :: "config \<Rightarrow> (nat \<Rightarrow> bool) \<Rightarrow> 't file_rec \<Rightarrow> 't state \<Rightarrow> 't state" where
  "remove_file cfg answers file st =
     (if dry_run cfg then st
      else if force cfg then st\<lparr>removed := removed st @ [full_name file]\<rparr>
      else if answers (prompts st)
           then st\<lparr>removed := removed st @ [full_name file], prompts := Suc (prompts st)\<rparr>
           else st\<lparr>prompts := Suc (prompts st)\<rparr>)"

text \<open>The body of the \<^verbatim>\<open>while\<close> loop, run when the queue \<open>files\<close> is not empty.\<close>

definition loop_body :: "config \<Rightarrow> (nat \<Rightarrow> bool) \<Rightarrow> 't state \<Rightarrow> error + 't state outcome" where
  "loop_body cfg answers st =
     (let file = hd (files st);
          version = version file;
          build = build_number file
      in case need_clean cfg st file of
           Inl e \<Rightarrow> Inl e
         | Inr nc \<Rightarrow>
             if \<not> nc \<and> (last_version st = None
                        \<or> (last_version st \<noteq> Some version \<or> last_build st \<noteq> Some build))
             then Inr (Break (st\<lparr>last_version := None, last_build := None\<rparr>))
             else
               let st1 = st\<lparr>last_version := Some version, last_build := Some build\<rparr>;
                   st2 = (if (dry_run cfg \<or> force cfg) \<and> verbose cfg
                          then st1\<lparr>printed := printed st1 @ [(full_name file, nc)]\<rparr> else st1);
                   st3 = remove_file cfg answers file st2
               in Inr (Continue (st3\<lparr>files := tl (files st3),
                                      total_size := total_size st3 - fsize file,
                                      cleanup_size := cleanup_size st3 + fsize file\<rparr>)))"

partial_function (option) eviction_loop ::
  "config \<Rightarrow> (nat \<Rightarrow> bool) \<Rightarrow> 't state \<Rightarrow> (error + 't state) option" where
  "eviction_loop cfg answers st =
     (if length (files st) > 0
      then (case loop_body cfg answers st of
              Inl e \<Rightarrow> Some (Inl e)
            | Inr (Break st') \<Rightarrow> Some (Inr st')
            | Inr (Continue st') \<Rightarrow> eviction_loop cfg answers st')
      else Some (Inr st))"

declare eviction_loop.simps [code]

section \<open>The whole run\<close>

definition initial_state :: "'t file_rec list \<Rightarrow> int \<Rightarrow> 't state" where
  "initial_state fs tsize =
     \<lparr>files = fs, total_size = tsize, cleanup_size = 0, last_version = None,
      last_build = None, removed = [], prompts = 0, printed = []\<rparr>"

text \<open>
  \<^verbatim>\<open>cleanup_packages\<close>, on the package that \<^verbatim>\<open>aserver_api.package\<close> returned. The result is
  \<open>None\<close> if the loop does not end, an error if the run raises, and the final state
  otherwise.
\<close>

definition cleanup_packages ::
  "('t::linorder) package \<Rightarrow> (nat \<Rightarrow> bool) \<Rightarrow> config \<Rightarrow> (error + 't state) option" where
  "cleanup_packages package answers cfg =
     (let versions = pkg_versions package;
          fs = (case label cfg of None \<Rightarrow> pkg_files package
                | Some l \<Rightarrow> filter (\<lambda>a. l \<in> set (labels a)) (pkg_files package));
          tsize = sum_list (map fsize fs);
          fs = classify versions fs
      in case print_priorities fs of
           Inl e \<Rightarrow> Some (Inl e)
         | Inr _ \<Rightarrow>
             (case sort_files fs of
                Inl e \<Rightarrow> Some (Inl e)
              | Inr sorted_files \<Rightarrow> eviction_loop cfg answers (initial_state sorted_files tsize)))"

section \<open>Example inputs\<close>

text \<open>
  A conda artifact of version \<open>v\<close> and build \<open>b\<close>, uploaded at \<open>t\<close>, of \<open>sz\<close> bytes, as the
  registry lists it; and the configuration with no limit and no flag set.
\<close>

definition artifact :: "string \<Rightarrow> int \<Rightarrow> 't \<Rightarrow> int \<Rightarrow> string \<Rightarrow> 't file_rec" where
  "artifact v b t sz name =
     \<lparr>version = v, attrs_build_number = Some b, attrs_build_no = None, fsize = sz,
      upload_time = t, labels = [''main''], full_name = name, cleanup_priority = None\<rparr>"

definition no_limits :: config where
  "no_limits = \<lparr>label = None, keep_count = None, max_size = None, max_priority = None,
                 dry_run = False, force = False, verbose = False\<rparr>"

text \<open>Two platform builds of one version and build, already classified.\<close>

definition two_siblings :: "nat file_rec list" where
  "two_siblings =
     [(artifact ''1.0.0'' 0 1 10 ''pkg-1.0.0-0-linux'')\<lparr>cleanup_priority := Some 4\<rparr>,
      (artifact ''1.0.0'' 0 2 20 ''pkg-1.0.0-0-win'')\<lparr>cleanup_priority := Some 4\<rparr>]"

text \<open>
  The eight files of the example in the help text of \<^verbatim>\<open>--max-priority\<close>, for given names of
  the five versions, upload times \<open>t 0\<close>, ..., \<open>t 7\<close> and sizes \<open>s 0\<close>, ..., \<open>s 7\<close>.
\<close>

definition example_files ::
  "string \<Rightarrow> string \<Rightarrow> string \<Rightarrow> string \<Rightarrow> string \<Rightarrow> (nat \<Rightarrow> 't) \<Rightarrow> (nat \<Rightarrow> int) \<Rightarrow> 't file_rec list" where
  "example_files v10 v12dev1 v20 v21dev1 v21dev2 t s =
     [artifact v10 0 (t 0) (s 0) ''pkg_v1.0_bld-0'',
      artifact v10 1 (t 1) (s 1) ''pkg_v1.0_bld-1'',
      artifact v12dev1 0 (t 2) (s 2) ''pkg_v1.2dev1_bld-0'',
      artifact v20 0 (t 3) (s 3) ''pkg_v2.0_bld-0'',
      artifact v21dev1 0 (t 4) (s 4) ''pkg_v2.1dev1_bld-0'',
      artifact v21dev1 1 (t 5) (s 5) ''pkg_v2.1dev1_bld-1'',
      artifact v21dev2 0 (t 6) (s 6) ''pkg_v2.1dev2_bld-0'',
      artifact v21dev2 2 (t 7) (s 7) ''pkg_v2.1dev2_bld-2'']"



text \<open>The same example with three numeric components in every version.\<close>

definition triplet_versions :: "string list" where
  "triplet_versions = [''1.0.0'', ''1.0.0'', ''1.2.0dev1'', ''2.0.0'', ''2.1.0dev1'', ''2.1.0dev2'']"

definition triplet_files :: "(nat \<Rightarrow> 't) \<Rightarrow> (nat \<Rightarrow> int) \<Rightarrow> 't file_rec list" where
  "triplet_files = example_files ''1.0.0'' ''1.2.0dev1'' ''2.0.0'' ''2.1.0dev1'' ''2.1.0dev2''"

text \<open>A package whose only file belongs to a version that the version sequence lacks.\<close>

definition orphan_package :: "nat package" where
  "orphan_package = \<lparr>pkg_versions = triplet_versions,
                      pkg_files = [artifact ''9.9.9'' 0 0 10 ''pkg-9.9.9-0'']\<rparr>"

text \<open>
  Two versions with one build each, built for two platforms; the uploads of the two
  versions alternate.
\<close>

definition interleaved_package :: "nat package" where
  "interleaved_package =
     \<lparr>pkg_versions = [''1.0.0'', ''2.0.0''],
      pkg_files = [artifact ''1.0.0'' 0 1 10 ''pkg-1.0.0-0-linux'',
                   artifact ''2.0.0'' 0 2 10 ''pkg-2.0.0-0-linux'',
                   artifact ''1.0.0'' 0 3 10 ''pkg-1.0.0-0-win'',
                   artifact ''2.0.0'' 0 4 10 ''pkg-2.0.0-0-win'']\<rparr>"

text \<open>A user who confirms every removal.\<close>

definition always_yes :: "nat \<Rightarrow> bool" where
  "always_yes n = True"

section \<open>Facts about the loop\<close>

lemma remove_file_fields:
  "files (remove_file cfg answers f st) = files st"
  "total_size (remove_file cfg answers f st) = total_size st"
  "cleanup_size (remove_file cfg answers f st) = cleanup_size st"
  "last_version (remove_file cfg answers f st) = last_version st"
  "last_build (remove_file cfg answers f st) = last_build st"
  "printed (remove_file cfg answers f st) = printed st"
  by (simp_all add: remove_file_def)

lemma loop_body_continue_files:
  "loop_body cfg answers st = Inr (Continue st') \<Longrightarrow> files st' = tl (files st)"
  by (auto simp: loop_body_def Let_def remove_file_fields split: sum.splits if_splits)

lemma loop_body_break_state:
  "loop_body cfg answers st = Inr (Break st') \<Longrightarrow>
     st' = st\<lparr>last_version := None, last_build := None\<rparr>"
  by (auto simp: loop_body_def Let_def split: sum.splits if_splits)

lemma loop_body_break_need:
  "loop_body cfg answers st = Inr (Break st') \<Longrightarrow> need_clean cfg st (hd (files st)) = Inr False"
  by (auto simp: loop_body_def Let_def split: sum.splits if_splits)

lemma need_clean_cong:
  "total_size st' = total_size st \<Longrightarrow> files st' = files st \<Longrightarrow>
   need_clean cfg st' f = need_clean cfg st f"
  by (simp add: need_clean_def split: option.splits)

lemma eviction_loop_total: "\<exists>r. eviction_loop cfg answers st = Some r"
proof (induction "length (files st)" arbitrary: st rule: less_induct)
  case less
  show ?case
  proof (cases "files st")
    case Nil
    then show ?thesis by (simp add: eviction_loop.simps)
  next
    case (Cons f fs)
    show ?thesis
    proof (cases "loop_body cfg answers st")
      case (Inl e)
      then show ?thesis using Cons by (simp add: eviction_loop.simps)
    next
      case (Inr oc)
      show ?thesis
      proof (cases oc)
        case (Break st')
        then show ?thesis using Cons Inr by (simp add: eviction_loop.simps)
      next
        case (Continue st')
        have "files st' = fs" using loop_body_continue_files Inr Continue Cons by fastforce
        then have "length (files st') < length (files st)" using Cons by simp
        from less[OF this] obtain r where "eviction_loop cfg answers st' = Some r" by blast
        then show ?thesis using Cons Inr Continue by (simp add: eviction_loop.simps)
      qed
    qed
  qed
qed

lemma eviction_loop_induct [consumes 1, case_names Empty Error Break Continue]:
  assumes run: "eviction_loop cfg answers st = Some r"
    and empty: "\<And>st. files st = [] \<Longrightarrow> P st (Inr st)"
    and err: "\<And>st e. files st \<noteq> [] \<Longrightarrow> loop_body cfg answers st = Inl e \<Longrightarrow> P st (Inl e)"
    and brk: "\<And>st st'. files st \<noteq> [] \<Longrightarrow> loop_body cfg answers st = Inr (Break st') \<Longrightarrow> P st (Inr st')"
    and cont: "\<And>st st' r. files st \<noteq> [] \<Longrightarrow> loop_body cfg answers st = Inr (Continue st') \<Longrightarrow>
                 eviction_loop cfg answers st' = Some r \<Longrightarrow> P st' r \<Longrightarrow> P st r"
  shows "P st r"
  using run
proof (induction "length (files st)" arbitrary: st rule: less_induct)
  case less
  show ?case
  proof (cases "files st = []")
    case True
    then show ?thesis using less.prems empty[OF True] by (auto simp: eviction_loop.simps)
  next
    case False
    show ?thesis
    proof (cases "loop_body cfg answers st")
      case (Inl e)
      then show ?thesis using False less.prems err[OF False Inl] by (auto simp: eviction_loop.simps)
    next
      case (Inr oc)
      show ?thesis
      proof (cases oc)
        case (Break st')
        then show ?thesis using False Inr less.prems brk[OF False, of st'] by (auto simp: eviction_loop.simps)
      next
        case (Continue st')
        have "files st' = tl (files st)" using loop_body_continue_files Inr Continue by fastforce
        then have shorter: "length (files st') < length (files st)" using False by simp
        have next_run: "eviction_loop cfg answers st' = Some r"
          using False Inr Continue less.prems by (simp add: eviction_loop.simps)
        from less.hyps[OF shorter next_run] cont[OF False _ next_run] Inr Continue
        show ?thesis by simp
      qed
    qed
  qed
qed

lemma eviction_loop_final:
  assumes "eviction_loop cfg answers st = Some r"
  shows "case r of Inl e \<Rightarrow> True | Inr st' \<Rightarrow> files st' = [] \<or> (last_version st' = None \<and> last_build st' = None \<and> need_clean cfg st' (hd (files st')) = Inr False)"
  using assms
proof (induction rule: eviction_loop_induct)
  case (Break st st')
  have eq: "st' = st\<lparr>last_version := None, last_build := None\<rparr>"
    using Break loop_body_break_state by blast
  have "need_clean cfg st (hd (files st)) = Inr False" using Break loop_body_break_need by blast
  moreover have "need_clean cfg st' (hd (files st)) = need_clean cfg st (hd (files st))"
    using eq by (intro need_clean_cong) simp_all
  ultimately show ?case using eq by simp
qed simp_all

lemma classify_nil: "classify vs [] = []"
proof -
  have "fold (classify_version ld (files_by_version [])) vs [] = []" for ld :: "string option"
    by (induction vs) (simp_all add: classify_version_def files_by_version_def)
  then show ?thesis by (simp add: classify_def)
qed

lemma cleanup_empty:
  "cleanup_packages \<lparr>pkg_versions = vs, pkg_files = []\<rparr> answers cfg = Some (Inr (initial_state [] 0))"
  by (simp add: cleanup_packages_def classify_nil print_priorities_def sort_files_def
       eviction_loop.simps initial_state_def split: option.splits)

lemma need_clean_defined:
  "cleanup_priority f \<noteq> None \<Longrightarrow> \<exists>nc. need_clean cfg st f = Inr nc"
  by (auto simp: need_clean_def split: option.splits)

lemma loop_body_defined:
  "files st \<noteq> [] \<Longrightarrow> cleanup_priority (hd (files st)) \<noteq> None \<Longrightarrow>
     \<exists>oc. loop_body cfg answers st = Inr oc"
  using need_clean_defined[of "hd (files st)" cfg st]
  by (auto simp: loop_body_def Let_def)

lemma eviction_loop_no_error:
  "list_all (\<lambda>f. cleanup_priority f \<noteq> None) (files st) \<Longrightarrow>
     \<exists>st'. eviction_loop cfg answers st = Some (Inr st')"
proof (induction "length (files st)" arbitrary: st rule: less_induct)
  case less
  show ?case
  proof (cases "files st")
    case Nil
    then show ?thesis by (simp add: eviction_loop.simps)
  next
    case (Cons f fs)
    then have "cleanup_priority (hd (files st)) \<noteq> None" using less.prems by simp
    then obtain oc where oc: "loop_body cfg answers st = Inr oc"
      using loop_body_defined[of st cfg answers] Cons by auto
    show ?thesis
    proof (cases oc)
      case (Break st')
      then show ?thesis using Cons oc by (simp add: eviction_loop.simps)
    next
      case (Continue st')
      have fs: "files st' = fs" using loop_body_continue_files oc Continue Cons by fastforce
      then have "length (files st') < length (files st)"
        and "list_all (\<lambda>f. cleanup_priority f \<noteq> None) (files st')"
        using Cons less.prems by simp_all
      from less.hyps[OF this] obtain st'' where "eviction_loop cfg answers st' = Some (Inr st'')"
        by blast
      then show ?thesis using Cons oc Continue by (simp add: eviction_loop.simps)
    qed
  qed
qed


lemma loop_body_break:
  assumes "files st = f # fs" and "need_clean cfg st f = Inr False"
    and "\<not> (last_version st = Some (version f) \<and> last_build st = Some (build_number f))"
  shows "loop_body cfg answers st = Inr (Break (st\<lparr>last_version := None, last_build := None\<rparr>))"
  using assms by (auto simp: loop_body_def Let_def)

lemma loop_body_continue:
  assumes "files st = f # fs" and "need_clean cfg st f = Inr nc"
    and "nc \<or> (last_version st = Some (version f) \<and> last_build st = Some (build_number f))"
  shows "\<exists>st'. loop_body cfg answers st = Inr (Continue st') \<and> files st' = fs
           \<and> total_size st' = total_size st - fsize f
           \<and> cleanup_size st' = cleanup_size st + fsize f
           \<and> last_version st' = Some (version f) \<and> last_build st' = Some (build_number f)
           \<and> removed st' = (if dry_run cfg then removed st
                else if force cfg \<or> answers (prompts st) then removed st @ [full_name f]
                else removed st)
           \<and> prompts st' = (if dry_run cfg \<or> force cfg then prompts st else Suc (prompts st))
           \<and> printed st' = (if (dry_run cfg \<or> force cfg) \<and> verbose cfg
                then printed st @ [(full_name f, nc)] else printed st)"
  using assms by (auto simp: loop_body_def Let_def remove_file_def)

section \<open>Termination\<close>

text \<open>
  C8. The eviction loop terminates for every state and every configuration. If every file
  of the queue carries a priority (as after the sort) it ends without an error. An
  iteration on a non-empty queue either leaves the loop (by the stop condition, or by an
  error) or continues with the queue shortened by its front file. A run that ends
  normally ends with the queue empty or with the stop condition fired: the group marker
  cleared and \<open>need_clean\<close> false for the front file. On the empty queue the loop returns
  the state it was given, and the whole run on a package with no files ends with nothing
  removed, no question asked and a reclaimed size of 0.
\<close>
theorem eviction_loop_terminates:
  "(\<exists>r. eviction_loop cfg answers st = Some r)
   \<and> (list_all (\<lambda>f. cleanup_priority f \<noteq> None) (files st)
        \<longrightarrow> (\<exists>st'. eviction_loop cfg answers st = Some (Inr st')))
   \<and> (files st \<noteq> [] \<longrightarrow>
         (\<exists>e. loop_body cfg answers st = Inl e)
       \<or> (\<exists>st'. loop_body cfg answers st = Inr (Break st'))
       \<or> (\<exists>st'. loop_body cfg answers st = Inr (Continue st') \<and> files st' = tl (files st)
                \<and> length (files st') < length (files st)))
   \<and> (\<forall>st'. eviction_loop cfg answers st = Some (Inr st') \<longrightarrow>
          files st' = [] \<or> (last_version st' = None
                            \<and> need_clean cfg st' (hd (files st')) = Inr False))
   \<and> eviction_loop cfg answers (initial_state [] tsize) = Some (Inr (initial_state [] tsize))
   \<and> cleanup_packages \<lparr>pkg_versions = vs, pkg_files = []\<rparr> answers cfg
       = Some (Inr \<lparr>files = [], total_size = 0, cleanup_size = 0, last_version = None,
                    last_build = None, removed = [], prompts = 0, printed = []\<rparr>)"
proof (intro conjI)
  show "\<exists>r. eviction_loop cfg answers st = Some r" by (rule eviction_loop_total)
  show "list_all (\<lambda>f. cleanup_priority f \<noteq> None) (files st)
        \<longrightarrow> (\<exists>st'. eviction_loop cfg answers st = Some (Inr st'))"
    using eviction_loop_no_error by blast
  show "files st \<noteq> [] \<longrightarrow>
         (\<exists>e. loop_body cfg answers st = Inl e)
       \<or> (\<exists>st'. loop_body cfg answers st = Inr (Break st'))
       \<or> (\<exists>st'. loop_body cfg answers st = Inr (Continue st') \<and> files st' = tl (files st)
                \<and> length (files st') < length (files st))"
  proof
    assume ne: "files st \<noteq> []"
    show "(\<exists>e. loop_body cfg answers st = Inl e)
       \<or> (\<exists>st'. loop_body cfg answers st = Inr (Break st'))
       \<or> (\<exists>st'. loop_body cfg answers st = Inr (Continue st') \<and> files st' = tl (files st)
                \<and> length (files st') < length (files st))"
    proof (cases "loop_body cfg answers st")
      case (Inl e)
      then show ?thesis by blast
    next
      case (Inr oc)
      show ?thesis
      proof (cases oc)
        case (Break st')
        then show ?thesis using Inr by blast
      next
        case (Continue st')
        then have "files st' = tl (files st)" using Inr loop_body_continue_files by blast
        then show ?thesis using Inr Continue ne by simp
      qed
    qed
  qed
  show "\<forall>st'. eviction_loop cfg answers st = Some (Inr st') \<longrightarrow>
          files st' = [] \<or> (last_version st' = None
                            \<and> need_clean cfg st' (hd (files st')) = Inr False)"
    using eviction_loop_final[of cfg answers st] by fastforce
  show "eviction_loop cfg answers (initial_state [] tsize) = Some (Inr (initial_state [] tsize))"
    by (simp add: eviction_loop.simps initial_state_def)
  show "cleanup_packages \<lparr>pkg_versions = vs, pkg_files = []\<rparr> answers cfg
       = Some (Inr \<lparr>files = [], total_size = 0, cleanup_size = 0, last_version = None,
                    last_build = None, removed = [], prompts = 0, printed = []\<rparr>)"
    using cleanup_empty[of vs answers cfg] by (simp add: initial_state_def)
qed

theorem eviction_loop_terminates_witness:
  "files (initial_state two_siblings 30) \<noteq> []
   \<and> list_all (\<lambda>f. cleanup_priority f \<noteq> None) (files (initial_state two_siblings 30))
   \<and> (\<exists>st'. eviction_loop (no_limits\<lparr>keep_count := Some 1\<rparr>) (\<lambda>n. True)
               (initial_state two_siblings 30) = Some (Inr st')
           \<and> (files st' = [] \<or> (last_version st' = None
                 \<and> need_clean (no_limits\<lparr>keep_count := Some 1\<rparr>) st' (hd (files st')) = Inr False)))"
proof -
  note t = eviction_loop_terminates[of "no_limits\<lparr>keep_count := Some 1\<rparr>" "\<lambda>n. True"
             "initial_state two_siblings 30" 0 "[]"]
  have a: "files (initial_state two_siblings 30) \<noteq> []"
    by (simp add: initial_state_def two_siblings_def)
  have b: "list_all (\<lambda>f. cleanup_priority f \<noteq> None) (files (initial_state two_siblings 30))"
    by (simp add: initial_state_def two_siblings_def artifact_def)
  from t b obtain st' where run: "eviction_loop (no_limits\<lparr>keep_count := Some 1\<rparr>) (\<lambda>n. True)
               (initial_state two_siblings 30) = Some (Inr st')" by blast
  with t have "files st' = [] \<or> (last_version st' = None
                 \<and> need_clean (no_limits\<lparr>keep_count := Some 1\<rparr>) st' (hd (files st')) = Inr False)"
    by blast
  with a b run show ?thesis by blast
qed

section \<open>The decision of one iteration\<close>


lemma eviction_loop_break:
  assumes "files st = f # fs" and "need_clean cfg st f = Inr False"
    and "\<not> (last_version st = Some (version f) \<and> last_build st = Some (build_number f))"
  shows "eviction_loop cfg answers st = Some (Inr (st\<lparr>last_version := None, last_build := None\<rparr>))"
  using loop_body_break[OF assms, of answers] assms(1) by (simp add: eviction_loop.simps)




section \<open>Declined confirmation\<close>

text \<open>
  C9. Without \<open>dry_run\<close> and \<open>force\<close>, when the iteration goes on and the user declines the
  removal of the front file \<open>f\<close>, no removal is requested, yet \<open>f\<close> leaves the queue, its
  size moves from the running total to the reclaimed total, and its (version, build) becomes
  the marker of the last removed group. So a following file of the same version and build
  for which \<open>need_clean\<close> is false is still taken, and removed if the user then agrees.
\<close>
theorem declined_confirmation:
  assumes "files st = f # fs" and "\<not> dry_run cfg" and "\<not> force cfg"
    and "\<not> answers (prompts st)"
    and "need_clean cfg st f = Inr True
         \<or> (need_clean cfg st f = Inr False \<and> last_version st = Some (version f)
              \<and> last_build st = Some (build_number f))"
  shows "\<exists>st'. loop_body cfg answers st = Inr (Continue st')
           \<and> removed st' = removed st \<and> prompts st' = Suc (prompts st)
           \<and> files st' = fs
           \<and> total_size st' = total_size st - fsize f
           \<and> cleanup_size st' = cleanup_size st + fsize f
           \<and> last_version st' = Some (version f) \<and> last_build st' = Some (build_number f)
           \<and> (\<forall>g gs. fs = g # gs \<and> version g = version f \<and> build_number g = build_number f
                  \<and> need_clean cfg st' g = Inr False \<and> answers (prompts st')
                \<longrightarrow> (\<exists>st''. loop_body cfg answers st' = Inr (Continue st'')
                            \<and> removed st'' = removed st @ [full_name g]))"
proof -
  from assms(5) obtain nc where nc: "need_clean cfg st f = Inr nc"
    and go: "nc \<or> (last_version st = Some (version f) \<and> last_build st = Some (build_number f))"
    by auto
  from loop_body_continue[OF assms(1) nc go, of answers]
  obtain st' where body: "loop_body cfg answers st = Inr (Continue st')"
    and fields: "files st' = fs" "total_size st' = total_size st - fsize f"
      "cleanup_size st' = cleanup_size st + fsize f"
      "last_version st' = Some (version f)" "last_build st' = Some (build_number f)"
      "removed st' = removed st" "prompts st' = Suc (prompts st)"
    using assms(2,3,4) by auto
  have "\<exists>st''. loop_body cfg answers st' = Inr (Continue st'')
                \<and> removed st'' = removed st @ [full_name g]"
    if sib: "fs = g # gs \<and> version g = version f \<and> build_number g = build_number f
             \<and> need_clean cfg st' g = Inr False \<and> answers (prompts st')" for g gs
  proof -
    have q: "files st' = g # gs" using fields sib by simp
    have n: "need_clean cfg st' g = Inr False" using sib by simp
    have m: "False \<or> (last_version st' = Some (version g) \<and> last_build st' = Some (build_number g))"
      using fields sib by simp
    from loop_body_continue[OF q n m, of answers] assms(2,3) sib fields
    show ?thesis by auto
  qed
  then show ?thesis using body fields by blast
qed

theorem declined_confirmation_witness:
  "files (initial_state two_siblings 30) = hd two_siblings # tl two_siblings
   \<and> \<not> dry_run (no_limits\<lparr>keep_count := Some 1\<rparr>) \<and> \<not> force (no_limits\<lparr>keep_count := Some 1\<rparr>)
   \<and> \<not> (\<lambda>n. n \<noteq> 0) (prompts (initial_state two_siblings 30))
   \<and> need_clean (no_limits\<lparr>keep_count := Some 1\<rparr>) (initial_state two_siblings 30)
        (hd two_siblings) = Inr True
   \<and> (\<exists>st'. loop_body (no_limits\<lparr>keep_count := Some 1\<rparr>) (\<lambda>n. n \<noteq> 0)
               (initial_state two_siblings 30) = Inr (Continue st')
            \<and> removed st' = [] \<and> prompts st' = 1 \<and> files st' = tl two_siblings
            \<and> total_size st' = 20 \<and> cleanup_size st' = 10
            \<and> last_version st' = Some ''1.0.0'' \<and> last_build st' = Some 0)
   \<and> eviction_loop (no_limits\<lparr>keep_count := Some 1\<rparr>) (\<lambda>n. n \<noteq> 0)
        (initial_state two_siblings 30)
      = Some (Inr \<lparr>files = [], total_size = 0, cleanup_size = 30,
                   last_version = Some ''1.0.0'', last_build = Some 0,
                   removed = [''pkg-1.0.0-0-win''], prompts = 2, printed = []\<rparr>)"
proof -
  let ?cfg = "no_limits\<lparr>keep_count := Some 1\<rparr>"
  let ?st = "initial_state two_siblings 30"
  have q: "files ?st = hd two_siblings # tl two_siblings"
    by (simp add: initial_state_def two_siblings_def)
  have d: "\<not> dry_run ?cfg" and f: "\<not> force ?cfg" by (simp_all add: no_limits_def)
  have a: "\<not> (\<lambda>n. n \<noteq> 0) (prompts ?st)" by (simp add: initial_state_def)
  have n: "need_clean ?cfg ?st (hd two_siblings) = Inr True"
    by (simp add: need_clean_def no_limits_def initial_state_def two_siblings_def)
  from declined_confirmation[of ?st "hd two_siblings" "tl two_siblings" ?cfg "\<lambda>n. n \<noteq> 0",
         OF q d f a disjI1[OF n]]
  obtain st' where "loop_body ?cfg (\<lambda>n. n \<noteq> 0) ?st = Inr (Continue st')"
    "removed st' = removed ?st" "prompts st' = Suc (prompts ?st)" "files st' = tl two_siblings"
    "total_size st' = total_size ?st - fsize (hd two_siblings)"
    "cleanup_size st' = cleanup_size ?st + fsize (hd two_siblings)"
    "last_version st' = Some (version (hd two_siblings))"
    "last_build st' = Some (build_number (hd two_siblings))"
    by blast
  then have step: "\<exists>st'. loop_body ?cfg (\<lambda>n. n \<noteq> 0) ?st = Inr (Continue st')
            \<and> removed st' = [] \<and> prompts st' = 1 \<and> files st' = tl two_siblings
            \<and> total_size st' = 20 \<and> cleanup_size st' = 10
            \<and> last_version st' = Some ''1.0.0'' \<and> last_build st' = Some 0"
    by (simp add: initial_state_def two_siblings_def artifact_def build_number_def)
  have run: "eviction_loop ?cfg (\<lambda>n. n \<noteq> 0) ?st
      = Some (Inr \<lparr>files = [], total_size = 0, cleanup_size = 30,
                   last_version = Some ''1.0.0'', last_build = Some 0,
                   removed = [''pkg-1.0.0-0-win''], prompts = 2, printed = []\<rparr>)"
    by code_simp
  from q d f a n step run show ?thesis by blast
qed

section \<open>Facts about the classifier\<close>

lemma fold_update_length:
  "length (fold (\<lambda>i st. st[i := g (st ! i)]) idxs st) = length st"
  by (induction idxs arbitrary: st) simp_all

lemma fold_update_nth:
  "distinct idxs \<Longrightarrow> j < length st \<Longrightarrow>
   fold (\<lambda>i st. st[i := g (st ! i)]) idxs st ! j = (if j \<in> set idxs then g (st ! j) else st ! j)"
proof (induction idxs arbitrary: st)
  case Nil
  then show ?case by simp
next
  case (Cons i idxs)
  then show ?case by (cases "i = j") (simp_all add: nth_list_update)
qed

lemma files_by_version_distinct: "distinct (files_by_version fs v)"
  by (simp add: files_by_version_def)

lemma files_by_version_set:
  "set (files_by_version fs v) = {i. i < length fs \<and> version (fs ! i) = v}"
  by (auto simp: files_by_version_def)

lemma files_by_version_files:
  "map (\<lambda>i. fs ! i) (files_by_version fs v) = filter (\<lambda>f. version f = v) fs"
proof -
  have "filter (\<lambda>f. version f = v) (map (\<lambda>i. fs ! i) [0..<length fs])
        = map (\<lambda>i. fs ! i) (files_by_version fs v)"
    by (simp add: files_by_version_def filter_map comp_def)
  then show ?thesis by (simp add: map_nth)
qed

lemma build_number_priority_update [simp]:
  "build_number (f\<lparr>cleanup_priority := x\<rparr>) = build_number f"
  by (simp add: build_number_def)

lemma file_priority_priority_update [simp]:
  "file_priority d m ld (f\<lparr>cleanup_priority := x\<rparr>) = file_priority d m ld f"
  by (simp add: file_priority_def)

lemma same_meta_fields:
  assumes "f\<lparr>cleanup_priority := None\<rparr> = g\<lparr>cleanup_priority := None\<rparr>"
  shows "version f = version g" and "build_number f = build_number g"
    and "fsize f = fsize g" and "upload_time f = upload_time g"
    and "full_name f = full_name g" and "file_priority d m ld f = file_priority d m ld g"
proof -
  show "version f = version g" using arg_cong[OF assms, of version] by simp
  show "build_number f = build_number g" using arg_cong[OF assms, of build_number] by simp
  show "fsize f = fsize g" using arg_cong[OF assms, of fsize] by simp
  show "upload_time f = upload_time g" using arg_cong[OF assms, of upload_time] by simp
  show "full_name f = full_name g" using arg_cong[OF assms, of full_name] by simp
  show "file_priority d m ld f = file_priority d m ld g"
    using arg_cong[OF assms, of "file_priority d m ld"] by simp
qed

lemma max_build_cong:
  "map build_number fs = map build_number gs \<Longrightarrow> max_build fs = max_build gs"
  by (simp add: max_build_def)

lemma classify_version_length:
  "length (classify_version ld groups v st) = length st"
  unfolding classify_version_def Let_def
  by (rule fold_update_length[where g = "\<lambda>f. f\<lparr>cleanup_priority :=
            Some (file_priority (is_dev_version v) (max_build (map (\<lambda>i. st ! i) (groups v))) ld f)\<rparr>"])

lemma classify_version_nth:
  assumes len: "length st = length fs"
    and meta: "\<forall>j<length fs. (st ! j)\<lparr>cleanup_priority := None\<rparr> = (fs ! j)\<lparr>cleanup_priority := None\<rparr>"
    and j: "j < length fs"
  shows "classify_version ld (files_by_version fs) v st ! j
         = (if version (fs ! j) = v
            then (st ! j)\<lparr>cleanup_priority :=
                   Some (file_priority (is_dev_version v)
                          (max_build (filter (\<lambda>g. version g = v) fs)) ld (fs ! j))\<rparr>
            else st ! j)"
proof -
  have "map build_number (map (\<lambda>i. st ! i) (files_by_version fs v))
        = map build_number (map (\<lambda>i. fs ! i) (files_by_version fs v))"
    using meta same_meta_fields(2) by (auto simp: files_by_version_set)
  then have mbd: "max_build (map (\<lambda>i. st ! i) (files_by_version fs v))
             = max_build (filter (\<lambda>g. version g = v) fs)"
    using max_build_cong files_by_version_files by metis
  have fp: "file_priority d m ld (st ! j) = file_priority d m ld (fs ! j)" for d m
    using meta j same_meta_fields(6) by blast
  have jst: "j < length st" using j len by simp
  show ?thesis
    unfolding classify_version_def Let_def mbd
    using j fold_update_nth[OF files_by_version_distinct jst,
            where g = "\<lambda>f. f\<lparr>cleanup_priority := Some (file_priority (is_dev_version v)
                          (max_build (filter (\<lambda>g. version g = v) fs)) ld f)\<rparr>", of fs v]
    by (simp add: files_by_version_set fp)
qed

lemma classify_version_meta:
  assumes len: "length st = length fs"
    and meta: "\<forall>j<length fs. (st ! j)\<lparr>cleanup_priority := None\<rparr> = (fs ! j)\<lparr>cleanup_priority := None\<rparr>"
  shows "\<forall>j<length fs. (classify_version ld (files_by_version fs) v st ! j)\<lparr>cleanup_priority := None\<rparr>
                        = (fs ! j)\<lparr>cleanup_priority := None\<rparr>"
  using classify_version_nth[OF len meta] meta by simp

lemma fold_classify_version:
  assumes len: "length st = length fs"
    and meta: "\<forall>j<length fs. (st ! j)\<lparr>cleanup_priority := None\<rparr> = (fs ! j)\<lparr>cleanup_priority := None\<rparr>"
  shows "length (fold (classify_version ld (files_by_version fs)) vs st) = length fs
       \<and> (\<forall>j<length fs.
            (fold (classify_version ld (files_by_version fs)) vs st ! j)\<lparr>cleanup_priority := None\<rparr>
              = (fs ! j)\<lparr>cleanup_priority := None\<rparr>
          \<and> cleanup_priority (fold (classify_version ld (files_by_version fs)) vs st ! j)
              = (if version (fs ! j) \<in> set vs
                 then Some (file_priority (is_dev_version (version (fs ! j)))
                              (max_build (filter (\<lambda>g. version g = version (fs ! j)) fs)) ld (fs ! j))
                 else cleanup_priority (st ! j)))"
  using assms
proof (induction vs arbitrary: st)
  case Nil
  then show ?case by simp
next
  case (Cons v vs)
  let ?st = "classify_version ld (files_by_version fs) v st"
  have len': "length ?st = length fs" using Cons.prems(1) by (simp add: classify_version_length)
  have meta': "\<forall>j<length fs. (?st ! j)\<lparr>cleanup_priority := None\<rparr> = (fs ! j)\<lparr>cleanup_priority := None\<rparr>"
    using classify_version_meta[OF Cons.prems] .
  note ih = Cons.IH[OF len' meta']
  have "cleanup_priority (?st ! j)
        = (if version (fs ! j) = v
           then Some (file_priority (is_dev_version v) (max_build (filter (\<lambda>g. version g = v) fs)) ld (fs ! j))
           else cleanup_priority (st ! j))" if "j < length fs" for j
    using classify_version_nth[OF Cons.prems that, of ld v] by simp
  with ih show ?case by auto
qed

lemma classify_length: "length (classify vs fs) = length fs"
  using fold_classify_version[of fs fs] by (simp add: classify_def)

lemma classify_priority:
  "j < length fs \<Longrightarrow>
   cleanup_priority (classify vs fs ! j)
     = (if version (fs ! j) \<in> set vs
        then Some (file_priority (is_dev_version (version (fs ! j)))
                     (max_build (filter (\<lambda>g. version g = version (fs ! j)) fs))
                     (last_dev_of vs) (fs ! j))
        else cleanup_priority (fs ! j))"
  using fold_classify_version[of fs fs] by (simp add: classify_def)


lemma fold_last_dev:
  "fold (\<lambda>v last_dev. if is_dev_version v then Some v else last_dev) vs acc
   = (if filter is_dev_version vs = [] then acc else Some (last (filter is_dev_version vs)))"
  by (induction vs arbitrary: acc) simp_all

lemma last_dev_of_last:
  "last_dev_of vs = (if filter is_dev_version vs = [] then None
                     else Some (last (filter is_dev_version vs)))"
  by (simp add: last_dev_of_def fold_last_dev)

lemma last_dev_of_is_dev:
  assumes "last_dev_of vs = Some v"
  shows "is_dev_version v" and "v \<in> set vs"
proof -
  from assms have ne: "filter is_dev_version vs \<noteq> []" and v: "v = last (filter is_dev_version vs)"
    by (auto simp: last_dev_of_last split: if_splits)
  then have "v \<in> set (filter is_dev_version vs)" using last_in_set by blast
  then show "is_dev_version v" and "v \<in> set vs" by simp_all
qed

lemma max_build_Max: "fs \<noteq> [] \<Longrightarrow> max_build fs = Max (build_number ` set fs)"
proof -
  assume "fs \<noteq> []"
  then obtain f gs where fs: "fs = f # gs" by (cases fs) auto
  have "max_build fs = fold max (map build_number gs) (build_number f)"
    by (simp add: max_build_def fs)
  also have "\<dots> = Max (set (build_number f # map build_number gs))"
    by (simp only: Max.set_eq_fold)
  finally show ?thesis by (simp add: fs)
qed

lemma file_priority_range: "file_priority d m ld f \<in> {0, 1, 2, 3, 4}"
  by (simp add: file_priority_def)

section \<open>The decision table\<close>

text \<open>
  C1. For every version sequence \<open>vs\<close> and file list \<open>fs\<close>, the classifier writes to every file
  whose version occurs in \<open>vs\<close> exactly the priority of the ordered table: 2 if the build
  number of the file is the maximum build of its version and the version is a development
  version other than the last one seen; else 4 if the build number is the maximum build;
  else 3 if the version is the last development version seen; else 0 if the version is a
  development version; else 1. The maximum build of a version is the greatest build number
  among the files of that version, and the last development version seen is the last
  element of \<open>vs\<close> that is a development version.
\<close>
theorem classifier_decision_table:
  assumes "j < length fs" and "version (fs ! j) \<in> set vs"
  shows "cleanup_priority (classify vs fs ! j)
         = Some (let f = fs ! j;
                     top = (build_number f = max_build (filter (\<lambda>g. version g = version f) fs));
                     dev = is_dev_version (version f);
                     last = (last_dev_of vs = Some (version f))
                 in if top \<and> dev \<and> \<not> last then 2
                    else if top then 4
                    else if last then 3
                    else if dev then 0
                    else 1)
       \<and> max_build (filter (\<lambda>g. version g = version (fs ! j)) fs)
           = Max (build_number ` {g \<in> set fs. version g = version (fs ! j)})
       \<and> last_dev_of vs = (if filter is_dev_version vs = [] then None
                            else Some (last (filter is_dev_version vs)))"
proof (intro conjI)
  have ld: "is_dev_version (version (fs ! j))" if "last_dev_of vs = Some (version (fs ! j))"
    using last_dev_of_is_dev(1)[OF that] .
  show "cleanup_priority (classify vs fs ! j)
         = Some (let f = fs ! j;
                     top = (build_number f = max_build (filter (\<lambda>g. version g = version f) fs));
                     dev = is_dev_version (version f);
                     last = (last_dev_of vs = Some (version f))
                 in if top \<and> dev \<and> \<not> last then 2
                    else if top then 4
                    else if last then 3
                    else if dev then 0
                    else 1)"
    using assms ld by (auto simp: classify_priority file_priority_def Let_def)
  have "fs ! j \<in> set (filter (\<lambda>g. version g = version (fs ! j)) fs)" using assms(1) by simp
  then have "filter (\<lambda>g. version g = version (fs ! j)) fs \<noteq> []" by (metis empty_iff empty_set)
  from max_build_Max[OF this]
  show "max_build (filter (\<lambda>g. version g = version (fs ! j)) fs)
           = Max (build_number ` {g \<in> set fs. version g = version (fs ! j)})"
    by simp
  show "last_dev_of vs = (if filter is_dev_version vs = [] then None
                            else Some (last (filter is_dev_version vs)))"
    by (rule last_dev_of_last)
qed

theorem classifier_decision_table_witness:
  "2 < length (triplet_files (\<lambda>i. i) (\<lambda>i. 10))
   \<and> version (triplet_files (\<lambda>i. i) (\<lambda>i. 10) ! 2) \<in> set triplet_versions
   \<and> cleanup_priority (classify triplet_versions (triplet_files (\<lambda>i. i) (\<lambda>i. 10)) ! 2) = Some 2"
proof -
  let ?fs = "triplet_files (\<lambda>i. i) (\<lambda>i. 10) :: nat file_rec list"
  have h1: "2 < length ?fs" by code_simp
  have h2: "version (?fs ! 2) \<in> set triplet_versions" by code_simp
  have v: "(let f = ?fs ! 2;
                top = (build_number f = max_build (filter (\<lambda>g. version g = version f) ?fs));
                dev = is_dev_version (version f);
                last = (last_dev_of triplet_versions = Some (version f))
            in if top \<and> dev \<and> \<not> last then 2
               else if top then 4
               else if last then 3
               else if dev then 0
               else 1) = (2::int)"
    by code_simp
  have "cleanup_priority (classify triplet_versions ?fs ! 2) = Some 2"
    using classifier_decision_table[OF h1 h2] unfolding v by blast
  with h1 h2 show ?thesis by blast
qed

section \<open>Files without a priority\<close>

lemma classify_all_assigned:
  assumes "\<forall>f\<in>set fs. version f \<in> set vs"
  shows "list_all (\<lambda>f. \<exists>p\<in>{0, 1, 2, 3, 4}. cleanup_priority f = Some p) (classify vs fs)"
proof -
  have "\<exists>p\<in>{0, 1, 2, 3, 4}. cleanup_priority (classify vs fs ! j) = Some p"
    if "j < length (classify vs fs)" for j
  proof -
    from that have j: "j < length fs" by (simp add: classify_length)
    then have "version (fs ! j) \<in> set vs" using assms by simp
    then show ?thesis using classify_priority[OF j, of vs] file_priority_range by auto
  qed
  then show ?thesis unfolding list_all_length by blast
qed

lemma classify_unassigned:
  assumes "j < length fs" and "version (fs ! j) \<notin> set vs" and "cleanup_priority (fs ! j) = None"
  shows "cleanup_priority (classify vs fs ! j) = None"
    and "\<not> list_all (\<lambda>f. cleanup_priority f \<noteq> None) (classify vs fs)"
proof -
  show a: "cleanup_priority (classify vs fs ! j) = None"
    using assms by (simp add: classify_priority)
  have "classify vs fs ! j \<in> set (classify vs fs)" using assms(1) by (simp add: classify_length)
  with a show "\<not> list_all (\<lambda>f. cleanup_priority f \<noteq> None) (classify vs fs)"
    unfolding list_all_iff by blast
qed

text \<open>
  C10. If the version of every file occurs in the version sequence, every classified file
  carries a priority among 0, 1, 2, 3, 4, and the look-up of the sort key succeeds for all
  of them. If the version of some file, listed by the registry without a priority, does not
  occur in the sequence, that file is left without a priority, the sort of the classified
  list fails with a missing-key error, and so does the run (the loop that reports the
  priorities evaluates the same look-up and raises the same error before the sort).
\<close>
theorem priority_defined_or_key_error:
  "((\<forall>f\<in>set fs. version f \<in> set vs) \<longrightarrow>
       list_all (\<lambda>f. \<exists>p\<in>{0, 1, 2, 3, 4}. cleanup_priority f = Some p) (classify vs fs)
     \<and> print_priorities (classify vs fs) = Inr ()
     \<and> sort_files (classify vs fs)
         = Inr (sort_key (\<lambda>f. (the (cleanup_priority f), upload_time f)) (classify vs fs)))
   \<and> (j < length fs \<and> version (fs ! j) \<notin> set vs \<and> cleanup_priority (fs ! j) = None \<longrightarrow>
       cleanup_priority (classify vs fs ! j) = None
     \<and> sort_files (classify vs fs) = Inl KeyError
     \<and> print_priorities (classify vs fs) = Inl KeyError
     \<and> (label cfg = None \<longrightarrow>
          cleanup_packages \<lparr>pkg_versions = vs, pkg_files = fs\<rparr> answers cfg = Some (Inl KeyError)))"
proof (intro conjI impI)
  assume a: "\<forall>f\<in>set fs. version f \<in> set vs"
  from classify_all_assigned[OF a]
  show all: "list_all (\<lambda>f. \<exists>p\<in>{0, 1, 2, 3, 4}. cleanup_priority f = Some p) (classify vs fs)" .
  then have "list_all (\<lambda>f. cleanup_priority f \<noteq> None) (classify vs fs)"
    unfolding list_all_iff by auto
  then show "print_priorities (classify vs fs) = Inr ()"
    and "sort_files (classify vs fs)
         = Inr (sort_key (\<lambda>f. (the (cleanup_priority f), upload_time f)) (classify vs fs))"
    by (simp_all add: print_priorities_def sort_files_def)
next
  assume b: "j < length fs \<and> version (fs ! j) \<notin> set vs \<and> cleanup_priority (fs ! j) = None"
  then show "cleanup_priority (classify vs fs ! j) = None"
    using classify_unassigned(1) by blast
  from b have n: "\<not> list_all (\<lambda>f. cleanup_priority f \<noteq> None) (classify vs fs)"
    using classify_unassigned(2) by blast
  then show "sort_files (classify vs fs) = Inl KeyError"
    and p: "print_priorities (classify vs fs) = Inl KeyError"
    by (simp_all add: print_priorities_def sort_files_def)
  assume "label cfg = None"
  then show "cleanup_packages \<lparr>pkg_versions = vs, pkg_files = fs\<rparr> answers cfg = Some (Inl KeyError)"
    using p by (simp add: cleanup_packages_def Let_def)
qed

theorem priority_defined_or_key_error_witness:
  "list_all (\<lambda>f. version f \<in> set triplet_versions) (triplet_files (\<lambda>i. i) (\<lambda>i. 10))
   \<and> list_all (\<lambda>f. \<exists>p\<in>{0, 1, 2, 3, 4}. cleanup_priority f = Some p)
        (classify triplet_versions (triplet_files (\<lambda>i. i) (\<lambda>i. 10)))
   \<and> print_priorities (classify triplet_versions (triplet_files (\<lambda>i. i) (\<lambda>i. 10))) = Inr ()
   \<and> 0 < length (pkg_files orphan_package)
   \<and> version (pkg_files orphan_package ! 0) \<notin> set (pkg_versions orphan_package)
   \<and> cleanup_priority (pkg_files orphan_package ! 0) = None
   \<and> label no_limits = None
   \<and> sort_files (classify (pkg_versions orphan_package) (pkg_files orphan_package)) = Inl KeyError
   \<and> cleanup_packages orphan_package (\<lambda>n. True) no_limits = Some (Inl KeyError)"
proof -
  let ?fs = "triplet_files (\<lambda>i. i) (\<lambda>i. 10) :: nat file_rec list"
  have a: "list_all (\<lambda>f. version f \<in> set triplet_versions) ?fs" by code_simp
  then have a': "\<forall>f\<in>set ?fs. version f \<in> set triplet_versions" unfolding list_all_iff .
  note t1 = priority_defined_or_key_error[of ?fs triplet_versions 0 no_limits "\<lambda>n. True"]
  from t1 a' have c1: "list_all (\<lambda>f. \<exists>p\<in>{0, 1, 2, 3, 4}. cleanup_priority f = Some p)
        (classify triplet_versions ?fs)"
    and c2: "print_priorities (classify triplet_versions ?fs) = Inr ()" by blast+
  have b: "0 < length (pkg_files orphan_package)"
    "version (pkg_files orphan_package ! 0) \<notin> set (pkg_versions orphan_package)"
    "cleanup_priority (pkg_files orphan_package ! 0) = None" "label no_limits = None"
    by code_simp+
  have p: "orphan_package = \<lparr>pkg_versions = pkg_versions orphan_package,
                              pkg_files = pkg_files orphan_package\<rparr>" by simp
  note t2 = priority_defined_or_key_error[of "pkg_files orphan_package"
              "pkg_versions orphan_package" 0 no_limits "\<lambda>n. True"]
  from t2 b have c3: "sort_files (classify (pkg_versions orphan_package) (pkg_files orphan_package))
                      = Inl KeyError"
    and c4: "cleanup_packages \<lparr>pkg_versions = pkg_versions orphan_package,
               pkg_files = pkg_files orphan_package\<rparr> (\<lambda>n. True) no_limits = Some (Inl KeyError)"
    by blast+
  from c4 p have c5: "cleanup_packages orphan_package (\<lambda>n. True) no_limits = Some (Inl KeyError)"
    by simp
  from a c1 c2 b c3 c5 show ?thesis by blast
qed

section \<open>The pattern of development versions\<close>










lemma not_digit [simp]:
  "\<not> is_digit CHR ''.''" "\<not> is_digit CHR ''d''" "\<not> is_digit CHR ''r''"
  by (simp_all add: is_digit_def)





section \<open>Runs with only a priority cap\<close>

lemma eviction_loop_continue:
  "files st \<noteq> [] \<Longrightarrow> loop_body cfg answers st = Inr (Continue st') \<Longrightarrow>
   eviction_loop cfg answers st = eviction_loop cfg answers st'"
  by (simp add: eviction_loop.simps)

lemma loop_body_continueE:
  assumes "files st = f # fs" and "need_clean cfg st f = Inr nc"
    and "nc \<or> (last_version st = Some (version f) \<and> last_build st = Some (build_number f))"
  obtains st' where "loop_body cfg answers st = Inr (Continue st')" and "files st' = fs"
    and "total_size st' = total_size st - fsize f"
    and "cleanup_size st' = cleanup_size st + fsize f"
    and "last_version st' = Some (version f)" and "last_build st' = Some (build_number f)"
    and "removed st' = (if dry_run cfg then removed st
                else if force cfg \<or> answers (prompts st) then removed st @ [full_name f]
                else removed st)"
    and "prompts st' = (if dry_run cfg \<or> force cfg then prompts st else Suc (prompts st))"
    and "printed st' = (if (dry_run cfg \<or> force cfg) \<and> verbose cfg
                then printed st @ [(full_name f, nc)] else printed st)"
proof -
  from loop_body_continue[OF assms, of answers] obtain st' where
    *: "loop_body cfg answers st = Inr (Continue st') \<and> files st' = fs
           \<and> total_size st' = total_size st - fsize f
           \<and> cleanup_size st' = cleanup_size st + fsize f
           \<and> last_version st' = Some (version f) \<and> last_build st' = Some (build_number f)
           \<and> removed st' = (if dry_run cfg then removed st
                else if force cfg \<or> answers (prompts st) then removed st @ [full_name f]
                else removed st)
           \<and> prompts st' = (if dry_run cfg \<or> force cfg then prompts st else Suc (prompts st))
           \<and> printed st' = (if (dry_run cfg \<or> force cfg) \<and> verbose cfg
                then printed st @ [(full_name f, nc)] else printed st)" ..
  from * show thesis by (elim conjE) (rule that)
qed












section \<open>The example of the help text\<close>











section \<open>Runs with only a keep count\<close>

lemma need_clean_keep_only:
  "keep_count cfg = Some n \<Longrightarrow> max_size cfg = None \<Longrightarrow> max_priority cfg = None \<Longrightarrow>
   need_clean cfg st f = Inr (int (length (files st)) > n)"
  by (simp add: need_clean_def)

lemma keep_only_loop:
  assumes cfg: "keep_count cfg = Some n" "max_size cfg = None" "max_priority cfg = None"
    and mark: "length (files st) \<le> nat n \<longrightarrow> files st = []
          \<or> \<not> (last_version st = Some (version (hd (files st)))
                \<and> last_build st = Some (build_number (hd (files st))))"
    and over: "0 < length (files st) - nat n \<and> length (files st) - nat n < length (files st)
          \<longrightarrow> \<not> (version (files st ! (length (files st) - nat n))
                    = version (files st ! (length (files st) - nat n - 1))
                \<and> build_number (files st ! (length (files st) - nat n))
                    = build_number (files st ! (length (files st) - nat n - 1)))"
  shows "\<exists>st'. eviction_loop cfg answers st = Some (Inr st')
           \<and> files st' = drop (length (files st) - nat n) (files st)
           \<and> cleanup_size st' = cleanup_size st
                + sum_list (map fsize (take (length (files st) - nat n) (files st)))
           \<and> (\<not> dry_run cfg \<and> force cfg \<longrightarrow> removed st' = removed st
                @ map full_name (take (length (files st) - nat n) (files st)))
           \<and> (dry_run cfg \<longrightarrow> removed st' = removed st)"
  using mark over
proof (induction "files st" arbitrary: st)
  case Nil
  then show ?case by (simp add: eviction_loop.simps)
next
  case (Cons f fs)
  note q = Cons.hyps(2)[symmetric]
  have nc: "need_clean cfg st f = Inr (int (length (files st)) > n)"
    by (rule need_clean_keep_only[OF cfg])
  show ?case
  proof (cases "int (length (files st)) > n")
    case False
    then have le: "length (files st) \<le> nat n" by (simp add: le_nat_iff)
    then have d0: "length (files st) - nat n = 0" by simp
    from Cons.prems(1) le q
    have nm: "\<not> (last_version st = Some (version f) \<and> last_build st = Some (build_number f))"
      by simp
    from nc False have nc': "need_clean cfg st f = Inr False" by simp
    from eviction_loop_break[OF q nc' nm, of answers]
    show ?thesis unfolding d0 by simp
  next
    case True
    obtain st1 where body: "loop_body cfg answers st = Inr (Continue st1)"
      and f1: "files st1 = fs" "total_size st1 = total_size st - fsize f"
        "cleanup_size st1 = cleanup_size st + fsize f"
        "last_version st1 = Some (version f)" "last_build st1 = Some (build_number f)"
        "removed st1 = (if dry_run cfg then removed st
                else if force cfg \<or> answers (prompts st) then removed st @ [full_name f]
                else removed st)"
        "prompts st1 = (if dry_run cfg \<or> force cfg then prompts st else Suc (prompts st))"
        "printed st1 = (if (dry_run cfg \<or> force cfg) \<and> verbose cfg
                then printed st @ [(full_name f, int (length (files st)) > n)] else printed st)"
      by (rule loop_body_continueE[OF q nc disjI1[OF True], of answers])
    have len: "length (files st) = Suc (length fs)" using q by simp
    have "nat n < length (files st)"
      using True len by (cases "0 \<le> n") (simp_all add: nat_less_iff)
    then have dpos: "0 < length (files st) - nat n" by simp
    have d1: "length (files st) - nat n = Suc (length fs - nat n)" using dpos len by linarith
    have m1: "length (files st1) \<le> nat n \<longrightarrow> files st1 = []
          \<or> \<not> (last_version st1 = Some (version (hd (files st1)))
                \<and> last_build st1 = Some (build_number (hd (files st1))))"
    proof (intro impI)
      assume a: "length (files st1) \<le> nat n"
      show "files st1 = [] \<or> \<not> (last_version st1 = Some (version (hd (files st1)))
                \<and> last_build st1 = Some (build_number (hd (files st1))))"
      proof (cases fs)
        case Nil
        then show ?thesis using f1(1) by simp
      next
        case (Cons g gs)
        from a f1(1) have "length fs - nat n = 0" by simp
        then have d: "length (files st) - nat n = 1" using d1 by simp
        have "1 < length (files st)" using len Cons by simp
        with Cons.prems(2) d
        have "\<not> (version (files st ! 1) = version (files st ! 0)
                \<and> build_number (files st ! 1) = build_number (files st ! 0))" by simp
        then show ?thesis using q Cons f1(1,4,5) by auto
      qed
    qed
    have o1: "0 < length (files st1) - nat n \<and> length (files st1) - nat n < length (files st1)
          \<longrightarrow> \<not> (version (files st1 ! (length (files st1) - nat n))
                    = version (files st1 ! (length (files st1) - nat n - 1))
                \<and> build_number (files st1 ! (length (files st1) - nat n))
                    = build_number (files st1 ! (length (files st1) - nat n - 1)))"
    proof (intro impI)
      assume a: "0 < length (files st1) - nat n \<and> length (files st1) - nat n < length (files st1)"
      let ?e = "length fs - nat n"
      from a f1(1) have e: "0 < ?e" "?e < length fs" by simp_all
      then have "0 < length (files st) - nat n \<and> length (files st) - nat n < length (files st)"
        using d1 len by simp
      with Cons.prems(2) have "\<not> (version (files st ! Suc ?e) = version (files st ! ?e)
                \<and> build_number (files st ! Suc ?e) = build_number (files st ! ?e))"
        unfolding d1 by simp
      moreover have "files st ! Suc ?e = fs ! ?e" using q by simp
      moreover have "files st ! ?e = fs ! (?e - 1)" using q e(1) by (simp add: nth_Cons')
      ultimately show "\<not> (version (files st1 ! (length (files st1) - nat n))
                    = version (files st1 ! (length (files st1) - nat n - 1))
                \<and> build_number (files st1 ! (length (files st1) - nat n))
                    = build_number (files st1 ! (length (files st1) - nat n - 1)))"
        unfolding f1(1) by simp
    qed
    from Cons.hyps(1)[OF f1(1)[symmetric] m1 o1]
    obtain st' where r: "eviction_loop cfg answers st1 = Some (Inr st')"
      "files st' = drop (length (files st1) - nat n) (files st1)"
      "cleanup_size st' = cleanup_size st1
                + sum_list (map fsize (take (length (files st1) - nat n) (files st1)))"
      "\<not> dry_run cfg \<and> force cfg \<longrightarrow> removed st' = removed st1
                @ map full_name (take (length (files st1) - nat n) (files st1))"
      "dry_run cfg \<longrightarrow> removed st' = removed st1"
      by blast
    have run: "eviction_loop cfg answers st = Some (Inr st')"
      using eviction_loop_continue[OF _ body] q r(1) by simp
    have tk: "take (length (files st) - nat n) (files st) = f # take (length fs - nat n) fs"
      by (subst d1, subst q, simp)
    have dr: "drop (length (files st) - nat n) (files st) = drop (length fs - nat n) fs"
      by (subst d1, subst q, simp)
    show ?thesis
      unfolding tk dr using run r(2-) f1 by auto
  qed
qed

lemma sort_files_sorted:
  assumes "sort_files fs = Inr q"
  shows "q = sort_key (\<lambda>f. (the (cleanup_priority f), upload_time f)) fs"
    and "sorted (map (\<lambda>f. (the (cleanup_priority f), upload_time f)) q)"
proof -
  show q: "q = sort_key (\<lambda>f. (the (cleanup_priority f), upload_time f)) fs"
    using assms by (simp add: sort_files_def split: if_splits)
  show "sorted (map (\<lambda>f. (the (cleanup_priority f), upload_time f)) q)"
    unfolding q by (rule sorted_sort_key)
qed

text \<open>
  C6, as amended. With only \<open>keep_count = n\<close> set, on the queue \<open>q\<close> that the sort yields, the
  loop takes the first \<open>length q - n\<close> files of \<open>q\<close> (none when \<open>q\<close> has at most \<open>n\<close> files, all
  when \<open>n\<close> is not positive), that is, the files that come first in ascending order of
  (priority, upload time), and keeps the rest: \<open>min (length q) n\<close> files remain, exactly \<open>n\<close>
  when \<open>0 \<le> n \<le> length q\<close>. This holds provided the file at the front when the count
  reaches \<open>n\<close> does not share version and build with the file removed last.
\<close>
theorem keep_count_run:
  assumes "keep_count cfg = Some n" and "max_size cfg = None" and "max_priority cfg = None"
    and "sort_files fs = Inr q"
    and "0 < length q - nat n \<and> length q - nat n < length q
          \<longrightarrow> \<not> (version (q ! (length q - nat n)) = version (q ! (length q - nat n - 1))
                \<and> build_number (q ! (length q - nat n))
                    = build_number (q ! (length q - nat n - 1)))"
  shows "\<exists>st'. eviction_loop cfg answers (initial_state q tsize) = Some (Inr st')
           \<and> files st' = drop (length q - nat n) q
           \<and> length (files st') = min (length q) (nat n)
           \<and> (0 \<le> n \<and> n \<le> int (length q) \<longrightarrow> int (length (files st')) = n)
           \<and> cleanup_size st' = sum_list (map fsize (take (length q - nat n) q))
           \<and> (\<not> dry_run cfg \<and> force cfg \<longrightarrow>
                 removed st' = map full_name (take (length q - nat n) q))
           \<and> (dry_run cfg \<longrightarrow> removed st' = [])
           \<and> sorted (map (\<lambda>f. (the (cleanup_priority f), upload_time f)) q)"
proof -
  let ?st = "initial_state q tsize"
  have i: "files ?st = q" "last_version ?st = None" "cleanup_size ?st = 0" "removed ?st = []"
    by (simp_all add: initial_state_def)
  have m: "length (files ?st) \<le> nat n \<longrightarrow> files ?st = []
          \<or> \<not> (last_version ?st = Some (version (hd (files ?st)))
                \<and> last_build ?st = Some (build_number (hd (files ?st))))"
    unfolding i by simp
  have o: "0 < length (files ?st) - nat n \<and> length (files ?st) - nat n < length (files ?st)
          \<longrightarrow> \<not> (version (files ?st ! (length (files ?st) - nat n))
                    = version (files ?st ! (length (files ?st) - nat n - 1))
                \<and> build_number (files ?st ! (length (files ?st) - nat n))
                    = build_number (files ?st ! (length (files ?st) - nat n - 1)))"
    unfolding i using assms(5) .
  from keep_only_loop[OF assms(1,2,3) m o, of answers]
  obtain st' where r: "eviction_loop cfg answers ?st = Some (Inr st')"
    "files st' = drop (length q - nat n) q"
    "cleanup_size st' = sum_list (map fsize (take (length q - nat n) q))"
    "\<not> dry_run cfg \<and> force cfg \<longrightarrow> removed st' = map full_name (take (length q - nat n) q)"
    "dry_run cfg \<longrightarrow> removed st' = []"
    unfolding i by auto
  have l: "length (files st') = min (length q) (nat n)" unfolding r(2) by simp
  have l': "0 \<le> n \<and> n \<le> int (length q) \<longrightarrow> int (length (files st')) = n"
  proof
    assume a: "0 \<le> n \<and> n \<le> int (length q)"
    then have "nat n \<le> length q" by (simp add: nat_le_iff)
    then have "min (length q) (nat n) = nat n" by simp
    then show "int (length (files st')) = n" unfolding l using a by simp
  qed
  note s = sort_files_sorted(2)[OF assms(4)]
  from r l l' s show ?thesis by blast
qed

theorem keep_count_run_counterexample:
  "keep_count (no_limits\<lparr>keep_count := Some 5\<rparr>) = Some 5
   \<and> max_size (no_limits\<lparr>keep_count := Some 5\<rparr>) = None
   \<and> max_priority (no_limits\<lparr>keep_count := Some 5\<rparr>) = None
   \<and> sort_files two_siblings = Inr two_siblings
   \<and> eviction_loop (no_limits\<lparr>keep_count := Some 5\<rparr>) always_yes (initial_state two_siblings 30)
       = Some (Inr (initial_state two_siblings 30))
   \<and> length (files (initial_state two_siblings 30)) = 2
   \<and> length (files (initial_state two_siblings 30)) \<noteq> 5"
  by code_simp

theorem keep_count_run_witness:
  "keep_count (no_limits\<lparr>keep_count := Some 3, force := True\<rparr>) = Some 3
   \<and> max_size (no_limits\<lparr>keep_count := Some 3, force := True\<rparr>) = None
   \<and> max_priority (no_limits\<lparr>keep_count := Some 3, force := True\<rparr>) = None
   \<and> sort_files (classify (pkg_versions interleaved_package) (pkg_files interleaved_package))
       = Inr (sort_key (\<lambda>f. (the (cleanup_priority f), upload_time f))
               (classify (pkg_versions interleaved_package) (pkg_files interleaved_package)))
   \<and> map_option (map_sum id (\<lambda>st. (map full_name (files st), cleanup_size st, removed st)))
        (eviction_loop (no_limits\<lparr>keep_count := Some 3, force := True\<rparr>) always_yes
           (initial_state (sort_key (\<lambda>f. (the (cleanup_priority f), upload_time f))
               (classify (pkg_versions interleaved_package) (pkg_files interleaved_package))) 40))
      = Some (Inr ([''pkg-2.0.0-0-linux'', ''pkg-1.0.0-0-win'', ''pkg-2.0.0-0-win''], 10,
                   [''pkg-1.0.0-0-linux'']))"
proof -
  let ?cfg = "no_limits\<lparr>keep_count := Some 3, force := True\<rparr>"
  let ?fs = "classify (pkg_versions interleaved_package) (pkg_files interleaved_package)"
  let ?q = "sort_key (\<lambda>f. (the (cleanup_priority f), upload_time f)) ?fs"
  have c: "keep_count ?cfg = Some 3" "max_size ?cfg = None" "max_priority ?cfg = None"
    "\<not> dry_run ?cfg \<and> force ?cfg"
    by (simp_all add: no_limits_def)
  have srt: "sort_files ?fs = Inr ?q" by code_simp
  have q: "?q = map (\<lambda>f. f\<lparr>cleanup_priority := Some 4\<rparr>) (pkg_files interleaved_package)"
    by code_simp
  have no: "0 < length ?q - nat 3 \<and> length ?q - nat 3 < length ?q
          \<longrightarrow> \<not> (version (?q ! (length ?q - nat 3)) = version (?q ! (length ?q - nat 3 - 1))
                \<and> build_number (?q ! (length ?q - nat 3))
                    = build_number (?q ! (length ?q - nat 3 - 1)))"
    unfolding q by (simp add: interleaved_package_def artifact_def)
  from keep_count_run[OF c(1,2,3) srt no, of always_yes 40]
  obtain st' where *: "eviction_loop ?cfg always_yes (initial_state ?q 40) = Some (Inr st')
           \<and> files st' = drop (length ?q - nat 3) ?q
           \<and> length (files st') = min (length ?q) (nat 3)
           \<and> (0 \<le> (3::int) \<and> 3 \<le> int (length ?q) \<longrightarrow> int (length (files st')) = 3)
           \<and> cleanup_size st' = sum_list (map fsize (take (length ?q - nat 3) ?q))
           \<and> (\<not> dry_run ?cfg \<and> force ?cfg \<longrightarrow>
                 removed st' = map full_name (take (length ?q - nat 3) ?q))
           \<and> (dry_run ?cfg \<longrightarrow> removed st' = [])
           \<and> sorted (map (\<lambda>f. (the (cleanup_priority f), upload_time f)) ?q)" ..
  note r1 = *[THEN conjunct1]
  note r2 = *[THEN conjunct2, THEN conjunct1]
  note r5 = *[THEN conjunct2, THEN conjunct2, THEN conjunct2, THEN conjunct2, THEN conjunct1]
  note r6 = *[THEN conjunct2, THEN conjunct2, THEN conjunct2, THEN conjunct2, THEN conjunct2,
              THEN conjunct1, THEN mp, OF c(4)]
  have e: "map_option (map_sum id (\<lambda>st. (map full_name (files st), cleanup_size st, removed st)))
        (eviction_loop ?cfg always_yes (initial_state ?q 40))
      = Some (Inr ([''pkg-2.0.0-0-linux'', ''pkg-1.0.0-0-win'', ''pkg-2.0.0-0-win''], 10,
                   [''pkg-1.0.0-0-linux'']))"
    unfolding r1 by (simp add: r2 r5 r6 q) (simp add: interleaved_package_def artifact_def)
  show ?thesis by (intro conjI c(1-3) srt e)
qed

section \<open>Dry runs\<close>

lemma remove_file_dry_run: "dry_run cfg \<Longrightarrow> remove_file cfg answers f st = st"
  by (simp add: remove_file_def)

lemma loop_body_dry_run:
  assumes "dry_run cfg"
  shows "loop_body cfg a1 st = loop_body cfg a2 st"
  unfolding loop_body_def remove_file_dry_run[OF assms] by (rule refl)

lemma eviction_loop_dry_run:
  assumes "dry_run cfg"
  shows "eviction_loop cfg a1 st = eviction_loop cfg a2 st"
proof (induction "length (files st)" arbitrary: st rule: less_induct)
  case less
  note u1 = eviction_loop.simps[of cfg a1 st] and u2 = eviction_loop.simps[of cfg a2 st]
  show ?case
  proof (cases "files st = []")
    case True
    then show ?thesis unfolding u1 u2 by simp
  next
    case False
    note b = loop_body_dry_run[OF assms, of a1 st a2]
    show ?thesis
    proof (cases "loop_body cfg a1 st")
      case (Inl e)
      moreover from Inl b have "loop_body cfg a2 st = Inl e" by simp
      ultimately show ?thesis unfolding u1 u2 using False by simp
    next
      case (Inr oc)
      from Inr b have Inr2: "loop_body cfg a2 st = Inr oc" by simp
      show ?thesis
      proof (cases oc)
        case (Break st')
        show ?thesis unfolding u1 u2 Inr Inr2 Break using False by simp
      next
        case (Continue st')
        have "files st' = tl (files st)" using loop_body_continue_files Inr Continue by fastforce
        then have "length (files st') < length (files st)" using False by simp
        from less[OF this] show ?thesis
          unfolding u1 u2 Inr Inr2 Continue using False by simp
      qed
    qed
  qed
qed

lemma loop_body_dry_run_effects:
  "dry_run cfg \<Longrightarrow> loop_body cfg answers st = Inr (Continue st') \<Longrightarrow>
   removed st' = removed st \<and> prompts st' = prompts st"
  by (auto simp: loop_body_def Let_def remove_file_dry_run split: sum.splits if_splits)

lemma eviction_loop_dry_run_effects:
  assumes "eviction_loop cfg answers st = Some r" and "dry_run cfg"
  shows "case r of Inl e \<Rightarrow> True | Inr st' \<Rightarrow> removed st' = removed st \<and> prompts st' = prompts st"
  using assms(1)
proof (induction rule: eviction_loop_induct)
  case (Break st st')
  then show ?case using loop_body_break_state by fastforce
next
  case (Continue st st' r)
  then show ?case using loop_body_dry_run_effects[OF assms(2)] by (cases r) fastforce+
qed simp_all

lemma cleanup_packages_total: "\<exists>r. cleanup_packages package answers cfg = Some r"
  by (auto simp: cleanup_packages_def Let_def eviction_loop_total split: sum.splits)

text \<open>
  C7. In a dry run the result is a function of the package and the limits alone: it does
  not depend on what a user would answer, the run always ends, no removal is requested
  from the registry and no question is asked. The registry is therefore left as it was,
  and a second dry run on it yields the same final state: the same reclaimed size and the
  same files taken off the queue, in the same order.
\<close>
theorem dry_run_deterministic:
  assumes "dry_run cfg"
  shows "cleanup_packages package a1 cfg = cleanup_packages package a2 cfg
       \<and> (\<exists>r. cleanup_packages package a1 cfg = Some r)
       \<and> (\<forall>st. cleanup_packages package a1 cfg = Some (Inr st)
              \<longrightarrow> removed st = [] \<and> prompts st = 0)"
proof (intro conjI)
  show "cleanup_packages package a1 cfg = cleanup_packages package a2 cfg"
    by (simp add: cleanup_packages_def Let_def eviction_loop_dry_run[OF assms, of a1 _ a2]
          split: sum.splits)
  show "\<exists>r. cleanup_packages package a1 cfg = Some r" by (rule cleanup_packages_total)
  show "\<forall>st. cleanup_packages package a1 cfg = Some (Inr st)
              \<longrightarrow> removed st = [] \<and> prompts st = 0"
  proof (intro allI impI)
    fix st assume run: "cleanup_packages package a1 cfg = Some (Inr st)"
    then obtain q tsize where "eviction_loop cfg a1 (initial_state q tsize) = Some (Inr st)"
      by (auto simp: cleanup_packages_def Let_def split: sum.splits)
    from eviction_loop_dry_run_effects[OF this assms]
    show "removed st = [] \<and> prompts st = 0" by (simp add: initial_state_def)
  qed
qed

theorem dry_run_deterministic_witness:
  "dry_run (no_limits\<lparr>keep_count := Some 3, dry_run := True, verbose := True\<rparr>)
   \<and> cleanup_packages interleaved_package always_yes
        (no_limits\<lparr>keep_count := Some 3, dry_run := True, verbose := True\<rparr>)
     = cleanup_packages interleaved_package (\<lambda>n. False)
        (no_limits\<lparr>keep_count := Some 3, dry_run := True, verbose := True\<rparr>)
   \<and> map_option (map_sum id (\<lambda>st. (cleanup_size st, printed st, removed st, prompts st)))
        (cleanup_packages interleaved_package always_yes
           (no_limits\<lparr>keep_count := Some 3, dry_run := True, verbose := True\<rparr>))
     = Some (Inr (10, [(''pkg-1.0.0-0-linux'', True)], [], 0))"
proof -
  let ?cfg = "no_limits\<lparr>keep_count := Some 3, dry_run := True, verbose := True\<rparr>"
  have d: "dry_run ?cfg" by (simp add: no_limits_def)
  note t = dry_run_deterministic[OF d, of interleaved_package always_yes "\<lambda>n. False"]
  have e: "map_option (map_sum id (\<lambda>st. (cleanup_size st, printed st, removed st, prompts st)))
        (cleanup_packages interleaved_package always_yes ?cfg)
     = Some (Inr (10, [(''pkg-1.0.0-0-linux'', True)], [], 0))"
    by code_simp
  show ?thesis by (intro conjI d t[THEN conjunct1] e)
qed

section \<open>Groups that are not contiguous in the queue\<close>

text \<open>
  C2. The loop compares the front file with the file removed last only, and the queue is
  ordered by priority and upload time, not by group. In the package below the two
  artifacts of version \<open>1.0.0\<close>, build 0, are separated in the queue by an artifact of
  version \<open>2.0.0\<close>. With \<open>keep_count = 3\<close> the run removes the first of them and stops at the
  next file; the second artifact of the same version and build is still in the queue.
\<close>
theorem group_left_half_removed:
  "map_option (map_sum id (\<lambda>st. (removed st, map full_name (files st),
                                    map (\<lambda>f. (version f, build_number f)) (files st))))
     (cleanup_packages interleaved_package always_yes
        (no_limits\<lparr>keep_count := Some 3, force := True\<rparr>))
   = Some (Inr ([''pkg-1.0.0-0-linux''],
                [''pkg-2.0.0-0-linux'', ''pkg-1.0.0-0-win'', ''pkg-2.0.0-0-win''],
                [(''2.0.0'', 0), (''1.0.0'', 0), (''2.0.0'', 0)]))"
  by code_simp

end
